theory Spec2Isabelle
  imports Complex_Main
begin

section \<open>Brochure cost calculator: embedding of \<open>src/src/BrochureCalculator.tsx\<close>\<close>

text \<open>
  Numbers of the source are TypeScript \<open>number\<close>s. Counts, page numbers and quantities
  are integers in every call the component makes (the inputs are read with
  \<open>parseInt(..) || 0\<close>), so they are modelled as \<open>int\<close>, without the loss of
  precision a \<open>number\<close> has above \<open>2^53\<close>. Prices are the decimal constants of the
  source, modelled as exact rationals (\<open>rat\<close>): rounding of binary floating point is
  outside this model. A string is a list of characters, each standing for the code unit
  of that value (code units below 256).
\<close>

subsection \<open>Price tiers and \<open>getPrice\<close>\<close>

text \<open>\<open>type Tier = { min: number; price: number }\<close>; the field \<open>min\<close> is named
  \<open>min_t\<close> here, since \<open>min\<close> is a constant of HOL.\<close>

record Tier =
  min_t :: int
  price :: rat

definition bwTiers :: "Tier list" where
  "bwTiers =
    [\<lparr>min_t = 1000, price = 0.04\<rparr>,
     \<lparr>min_t = 500, price = 0.05\<rparr>,
     \<lparr>min_t = 250, price = 0.06\<rparr>,
     \<lparr>min_t = 100, price = 0.07\<rparr>,
     \<lparr>min_t = 50, price = 0.09\<rparr>,
     \<lparr>min_t = 1, price = 0.1\<rparr>]"

definition colorTiers :: "Tier list" where
  "colorTiers =
    [\<lparr>min_t = 5000, price = 0.38\<rparr>,
     \<lparr>min_t = 1000, price = 0.18\<rparr>,
     \<lparr>min_t = 500, price = 0.28\<rparr>,
     \<lparr>min_t = 250, price = 0.35\<rparr>,
     \<lparr>min_t = 100, price = 0.43\<rparr>,
     \<lparr>min_t = 50, price = 0.69\<rparr>,
     \<lparr>min_t = 1, price = 0.84\<rparr>]"

text \<open>The \<open>for (const tier of tiers)\<close> loop of \<open>getPrice\<close>: \<open>Some p\<close> when the loop
  returns \<open>p\<close>, \<open>None\<close> when it falls through.\<close>

fun getPrice_loop :: "Tier list \<Rightarrow> int \<Rightarrow> rat option" where
  "getPrice_loop [] quantity = None"
| "getPrice_loop (tier # rest) quantity =
     (if quantity \<ge> min_t tier then Some (price tier) else getPrice_loop rest quantity)"

text \<open>\<open>getPrice\<close>: after the loop the fallback is \<open>tiers[tiers.length - 1].price\<close>, which
  throws a TypeError on an empty table (the result \<open>None\<close>).\<close>

definition getPrice :: "Tier list \<Rightarrow> int \<Rightarrow> rat option" where
  "getPrice tiers quantity =
     (case getPrice_loop tiers quantity of
        Some p \<Rightarrow> Some p
      | None \<Rightarrow> (case tiers of [] \<Rightarrow> None | _ # _ \<Rightarrow> Some (price (last tiers))))"

subsection \<open>\<open>parseColorPages\<close>\<close>

text \<open>The function returns \<open>{ pages: number[]; error?: string }\<close>. The three error
  messages are modelled by the data they are built from: the token of the invalid range,
  and the page number with the bound it exceeds.\<close>

datatype parse_error =
    InvalidCharacters
  | InvalidRange string
  | PageOutOfBounds int int

record ParseResult =
  pages :: "int list"
  error :: "parse_error option"

definition isDigit :: "char \<Rightarrow> bool" where
  "isDigit c = (c \<in> set ''0123456789'')"

text \<open>White space of \<open>\s\<close>, \<open>trim\<close> and \<open>parseInt\<close> among the code units below 256:
  tab, line feed, vertical tab, form feed, carriage return, space, no-break space.\<close>

definition isSpace :: "char \<Rightarrow> bool" where
  "isSpace c = (c \<in> set [CHR 0x09, CHR 0x0A, CHR 0x0B, CHR 0x0C, CHR 0x0D, CHR 0x20, CHR 0xA0])"

text \<open>The test \<open>/^[0-9,\-\s]*$/.test(input)\<close>.\<close>

definition allowedChars :: "string \<Rightarrow> bool" where
  "allowedChars input =
     list_all (\<lambda>c. isDigit c \<or> c = CHR '','' \<or> c = CHR ''-'' \<or> isSpace c) input"

text \<open>\<open>s.split(sep)\<close> for a one-character separator: the empty string gives one empty piece.\<close>

fun split_on :: "char \<Rightarrow> string \<Rightarrow> string list" where
  "split_on sep [] = [[]]"
| "split_on sep (c # cs) =
     (if c = sep then [] # split_on sep cs
      else (case split_on sep cs of
              p # ps \<Rightarrow> (c # p) # ps
            | [] \<Rightarrow> [[c]]))"

definition trim :: "string \<Rightarrow> string" where
  "trim s = rev (dropWhile isSpace (rev (dropWhile isSpace s)))"

definition digitVal :: "char \<Rightarrow> int" where
  "digitVal c = of_char c - 48"

definition digitsVal :: "string \<Rightarrow> int" where
  "digitsVal ds = foldl (\<lambda>a c. 10 * a + digitVal c) 0 ds"

text \<open>\<open>parseInt(s, 10)\<close>: leading white space is skipped, a sign is read, then the longest
  prefix of decimal digits; \<open>None\<close> is \<open>NaN\<close>.\<close>

definition parseInt :: "string \<Rightarrow> int option" where
  "parseInt s =
     (let t = dropWhile isSpace s;
          neg = (case t of c # _ \<Rightarrow> c = CHR ''-'' | [] \<Rightarrow> False);
          u = (case t of c # r \<Rightarrow> if c = CHR ''-'' \<or> c = CHR ''+'' then r else t | [] \<Rightarrow> t);
          ds = takeWhile isDigit u
      in if ds = [] then None
         else Some (if neg then - digitsVal ds else digitsVal ds))"

text \<open>\<open>resultSet.add(i)\<close> on a \<open>Set<number>\<close>, kept in insertion order as
  \<open>Array.from(resultSet)\<close> lists it.\<close>

definition setAdd :: "int list \<Rightarrow> int \<Rightarrow> int list" where
  "setAdd resultSet i = (if i \<in> set resultSet then resultSet else resultSet @ [i])"

text \<open>The loop \<open>for (let i = start; i <= end; i++)\<close> of a range token. \<open>Inl r\<close>: the
  function returned \<open>r\<close> from inside the loop; \<open>Inr s\<close>: the loop ended with the set \<open>s\<close>.\<close>

function rangeLoop :: "int \<Rightarrow> int \<Rightarrow> int \<Rightarrow> int list \<Rightarrow> ParseResult + int list" where
  "rangeLoop i endv maxPage resultSet =
     (if i \<le> endv then
        (if i > maxPage then Inl \<lparr>pages = [], error = Some (PageOutOfBounds i maxPage)\<rparr>
         else rangeLoop (i + 1) endv maxPage (setAdd resultSet i))
      else Inr resultSet)"
  by pat_completeness auto
termination
  by (relation "measure (\<lambda>(i, endv, maxPage, resultSet). nat (endv + 1 - i))") auto

text \<open>The equation of the loop is unfolded by hand, one iteration at a time.\<close>

declare rangeLoop.simps [simp del]

text \<open>The body of \<open>for (const token of tokens)\<close>. In the destructuring
  \<open>[startStr, endStr] = token.split('-').map(t => t.trim())\<close> a missing part would be
  \<open>undefined\<close>, which \<open>parseInt\<close> reads as \<open>NaN\<close>.\<close>

definition processToken :: "string \<Rightarrow> int \<Rightarrow> int list \<Rightarrow> ParseResult + int list" where
  "processToken token maxPage resultSet =
     (if CHR ''-'' \<in> set token then
        (let parts = map trim (split_on CHR ''-'' token);
             start = (case parts of startStr # _ \<Rightarrow> parseInt startStr | [] \<Rightarrow> None);
             endv = (case parts of _ # endStr # _ \<Rightarrow> parseInt endStr | _ \<Rightarrow> None)
         in case (start, endv) of
              (Some s, Some e) \<Rightarrow>
                if s > e then Inl \<lparr>pages = [], error = Some (InvalidRange token)\<rparr>
                else rangeLoop s e maxPage resultSet
            | _ \<Rightarrow> Inl \<lparr>pages = [], error = Some (InvalidRange token)\<rparr>)
      else
        (case parseInt token of
           None \<Rightarrow> Inr resultSet
         | Some num \<Rightarrow>
             if num > maxPage
             then Inl \<lparr>pages = [], error = Some (PageOutOfBounds num maxPage)\<rparr>
             else Inr (setAdd resultSet num)))"

fun tokenLoop :: "string list \<Rightarrow> int \<Rightarrow> int list \<Rightarrow> ParseResult + int list" where
  "tokenLoop [] maxPage resultSet = Inr resultSet"
| "tokenLoop (token # rest) maxPage resultSet =
     (case processToken token maxPage resultSet of
        Inl r \<Rightarrow> Inl r
      | Inr resultSet' \<Rightarrow> tokenLoop rest maxPage resultSet')"

text \<open>\<open>input.split(',').map(t => t.trim()).filter(t => t !== '')\<close>.\<close>

definition tokens :: "string \<Rightarrow> string list" where
  "tokens input = filter (\<lambda>t. t \<noteq> []) (map trim (split_on CHR '','' input))"

definition parseColorPages :: "string \<Rightarrow> int \<Rightarrow> ParseResult" where
  "parseColorPages input maxPage =
     (if \<not> allowedChars input then \<lparr>pages = [], error = Some InvalidCharacters\<rparr>
      else (case tokenLoop (tokens input) maxPage [] of
              Inl r \<Rightarrow> r
            | Inr resultSet \<Rightarrow> \<lparr>pages = resultSet, error = None\<rparr>))"

subsection \<open>\<open>calculateBrochureBreakdown\<close>\<close>

record Breakdown =
  swCount :: int
  effectiveSwCount :: int
  swUnitPrice :: rat
  swSurcharge :: rat
  swTotal :: rat
  colorCount :: int
  effectiveColorCount :: int
  colorUnitPrice :: rat
  colorSurcharge :: rat
  colorTotal :: rat
  bindingCount :: int
  bindingCost :: rat
  totalCost :: rat

text \<open>The array \<open>impressions\<close> of sheet \<open>j\<close> (lines 110 to 117).\<close>

definition impressions :: "int \<Rightarrow> int \<Rightarrow> int list list" where
  "impressions totalPages j =
     (let pageA = totalPages - 2 * j;
          pageB = 1 + 2 * j;
          pageC = 2 + 2 * j;
          pageD = totalPages - (2 * j + 1)
      in [[pageA, pageB], [pageC, pageD]])"

text \<open>The callback of \<open>impressions.forEach\<close>, on the state \<open>(totalBW, totalColor)\<close>.\<close>

definition countPair :: "int \<Rightarrow> int list \<Rightarrow> int list \<Rightarrow> int \<times> int \<Rightarrow> int \<times> int" where
  "countPair pagesPerBrochure colorPages pair st =
     (case st of (totalBW, totalColor) \<Rightarrow>
        if list_ex (\<lambda>p. p \<le> pagesPerBrochure) pair then
          (let isColorImpression =
                 list_ex (\<lambda>p. p \<le> pagesPerBrochure \<and> p \<in> set colorPages) pair
           in if isColorImpression then (totalBW, totalColor + 1)
              else (totalBW + 1, totalColor))
        else (totalBW, totalColor))"

text \<open>The loop \<open>for (let j = 0; j < sheets; j++)\<close>.\<close>

function sheetLoop :: "int \<Rightarrow> int list \<Rightarrow> int \<Rightarrow> int \<Rightarrow> int \<Rightarrow> int \<times> int \<Rightarrow> int \<times> int" where
  "sheetLoop pagesPerBrochure colorPages totalPages sheets j st =
     (if j < sheets then
        sheetLoop pagesPerBrochure colorPages totalPages sheets (j + 1)
          (fold (countPair pagesPerBrochure colorPages) (impressions totalPages j) st)
      else st)"
  by pat_completeness auto
termination
  by (relation "measure (\<lambda>(p, cp, tp, sheets, j, st). nat (sheets - j))") auto

declare sheetLoop.simps [simp del]

text \<open>Lines 137 to 156: the surcharges and the costs of the two categories, as
  \<open>(swSurcharge, colorSurcharge, swCost, colorCost)\<close>.\<close>

definition surchargeCosts ::
  "int \<Rightarrow> int \<Rightarrow> int \<Rightarrow> int \<Rightarrow> rat \<Rightarrow> rat \<Rightarrow> bool \<Rightarrow> rat \<times> rat \<times> rat \<times> rat" where
  "surchargeCosts totalBW totalColor effectiveBW effectiveColor swUnit colorUnit isA3 =
     (let totalImpressions = totalColor + totalBW in
      if totalImpressions > 0 then
        (if totalColor > 0 \<and> effectiveColor < 50 then
           (let colorSurcharge = (if isA3 then 2.4 else 1.2) in
            (0, colorSurcharge,
             of_int totalBW * swUnit,
             colorSurcharge + of_int (totalColor - 1) * colorUnit))
         else if totalColor = 0 \<and> effectiveBW < 50 then
           (let swSurcharge = (if isA3 then 0.9 else 0.45) in
            (swSurcharge, 0,
             swSurcharge + of_int (totalBW - 1) * swUnit,
             0))
         else
           (0, 0, of_int totalBW * swUnit, of_int totalColor * colorUnit))
      else (0, 0, 0, 0))"

text \<open>Lines 104 to 125: the rounded page count, the number of sheets and the loop over
  the sheets, giving the impressions of one brochure as \<open>(totalBW, totalColor)\<close>.
  \<open>Math.ceil(pagesPerBrochure / 4)\<close> is the ceiling of the exact quotient;
  \<open>totalPages / 4\<close> is exact, \<open>totalPages\<close> being a multiple of 4.\<close>

definition countImpressions :: "int \<Rightarrow> int list \<Rightarrow> int \<times> int" where
  "countImpressions pagesPerBrochure colorPages =
     (let totalPages = \<lceil>(of_int pagesPerBrochure :: rat) / 4\<rceil> * 4;
          sheets = totalPages div 4
      in sheetLoop pagesPerBrochure colorPages totalPages sheets 0 (0, 0))"

text \<open>\<open>calculateBrochureBreakdown\<close>. The result is \<open>None\<close> only if \<open>getPrice\<close>
  throws.\<close>

definition calculateBrochureBreakdown ::
  "int \<Rightarrow> int list \<Rightarrow> int \<Rightarrow> bool \<Rightarrow> Breakdown option" where
  "calculateBrochureBreakdown pagesPerBrochure colorPages brochureCount isA3 =
     (let counted = countImpressions pagesPerBrochure colorPages;
          totalColor = snd counted * brochureCount;
          totalBW = fst counted * brochureCount;
          effectiveColor = (if isA3 then totalColor * 2 else totalColor);
          effectiveBW = (if isA3 then totalBW * 2 else totalBW);
          factor = (if isA3 then 2 else 1)
      in case getPrice bwTiers effectiveBW of
           None \<Rightarrow> None
         | Some swBase \<Rightarrow>
        (case getPrice colorTiers effectiveColor of
           None \<Rightarrow> None
         | Some colorBase \<Rightarrow>
        (let swUnit = swBase * factor;
             colorUnit = colorBase * factor
         in case surchargeCosts totalBW totalColor effectiveBW effectiveColor
                   swUnit colorUnit isA3 of
              (swSurcharge', colorSurcharge', swCost, colorCost) \<Rightarrow>
        (let bindingCost' = (if pagesPerBrochure < 5 then 0 else of_int brochureCount * 0.18);
             bindingCount' = (if pagesPerBrochure < 5 then 0 else brochureCount);
             totalCost' = swCost + colorCost + bindingCost'
         in Some \<lparr>swCount = totalBW,
                  effectiveSwCount = effectiveBW,
                  swUnitPrice = swUnit,
                  swSurcharge = swSurcharge',
                  swTotal = swCost,
                  colorCount = totalColor,
                  effectiveColorCount = effectiveColor,
                  colorUnitPrice = colorUnit,
                  colorSurcharge = colorSurcharge',
                  colorTotal = colorCost,
                  bindingCount = bindingCount',
                  bindingCost = bindingCost',
                  totalCost = totalCost'\<rparr>))))"

subsection \<open>Closed forms of the two price tables\<close>

text \<open>What the scan of \<open>getPrice\<close> gives on \<open>bwTiers\<close> and on \<open>colorTiers\<close>, as
  functions of the quantity; \<open>getPrice_bwTiers\<close> and \<open>getPrice_colorTiers\<close> below prove
  them equal to \<open>getPrice\<close> on these tables.\<close>

definition bwPrice :: "int \<Rightarrow> rat" where
  "bwPrice q =
     (if q \<ge> 1000 then 0.04 else if q \<ge> 500 then 0.05 else if q \<ge> 250 then 0.06
      else if q \<ge> 100 then 0.07 else if q \<ge> 50 then 0.09 else 0.1)"

definition colorPrice :: "int \<Rightarrow> rat" where
  "colorPrice q =
     (if q \<ge> 5000 then 0.38 else if q \<ge> 1000 then 0.18 else if q \<ge> 500 then 0.28
      else if q \<ge> 250 then 0.35 else if q \<ge> 100 then 0.43 else if q \<ge> 50 then 0.69
      else 0.84)"

subsection \<open>The imposition as the specification words it\<close>

text \<open>The page count rounded up to a multiple of 4; the two impressions of sheet \<open>j\<close> as
  pairs of slots; when an impression is counted and when it is colour; the impressions of
  the sheets \<open>j\<close> to \<open>sheets - 1\<close>; and the two counts over a layout. They are
  compared with the loop of the source in the section on the imposition loop.\<close>

definition roundUp4 :: "int \<Rightarrow> int" where
  "roundUp4 n = (if n mod 4 = 0 then n else n + (4 - n mod 4))"

definition spec_slots :: "int \<Rightarrow> int \<Rightarrow> (int \<times> int) list" where
  "spec_slots totalPages j =
     [(totalPages - 2 * j, 1 + 2 * j), (2 + 2 * j, totalPages - (2 * j + 1))]"

definition spec_counted :: "int \<Rightarrow> int \<times> int \<Rightarrow> bool" where
  "spec_counted pagesPerBrochure s = (fst s \<le> pagesPerBrochure \<or> snd s \<le> pagesPerBrochure)"

definition spec_color :: "int \<Rightarrow> int list \<Rightarrow> int \<times> int \<Rightarrow> bool" where
  "spec_color pagesPerBrochure colorPages s =
     ((fst s \<le> pagesPerBrochure \<and> fst s \<in> set colorPages) \<or>
      (snd s \<le> pagesPerBrochure \<and> snd s \<in> set colorPages))"

definition spec_layout :: "int \<Rightarrow> int \<Rightarrow> int \<Rightarrow> (int \<times> int) list" where
  "spec_layout totalPages j sheets = concat (map (spec_slots totalPages) [j..sheets - 1])"

definition spec_colorCount :: "int \<Rightarrow> int list \<Rightarrow> (int \<times> int) list \<Rightarrow> int" where
  "spec_colorCount pagesPerBrochure colorPages layout =
     int (length (filter (\<lambda>s. spec_counted pagesPerBrochure s \<and>
                              spec_color pagesPerBrochure colorPages s) layout))"

definition spec_bwCount :: "int \<Rightarrow> int list \<Rightarrow> (int \<times> int) list \<Rightarrow> int" where
  "spec_bwCount pagesPerBrochure colorPages layout =
     int (length (filter (\<lambda>s. spec_counted pagesPerBrochure s \<and>
                              \<not> spec_color pagesPerBrochure colorPages s) layout))"

subsection \<open>A range token read by two of its parts\<close>

text \<open>The outcome of a token read as the range from the part \<open>startStr\<close> to the part
  \<open>endStr\<close>: an invalid range (citing the token) when a part is not a number or the
  start is above the end, the loop over the range otherwise. It is compared with
  \<open>processToken\<close> in the section on tokens with more than one hyphen.\<close>

definition rangeOf :: "string \<Rightarrow> string \<Rightarrow> string \<Rightarrow> int \<Rightarrow> int list \<Rightarrow> ParseResult + int list" where
  "rangeOf token startStr endStr maxPage resultSet =
     (case parseInt (trim startStr) of
        None \<Rightarrow> Inl \<lparr>pages = [], error = Some (InvalidRange token)\<rparr>
      | Some s \<Rightarrow>
          (case parseInt (trim endStr) of
             None \<Rightarrow> Inl \<lparr>pages = [], error = Some (InvalidRange token)\<rparr>
           | Some e \<Rightarrow>
               if s > e then Inl \<lparr>pages = [], error = Some (InvalidRange token)\<rparr>
               else rangeLoop s e maxPage resultSet))"

section \<open>The cost engine\<close>

subsection \<open>The shape of a breakdown\<close>

lemma getPrice_bwTiers: "getPrice bwTiers q = Some (bwPrice q)"
  by (simp add: getPrice_def bwTiers_def bwPrice_def)

lemma getPrice_colorTiers: "getPrice colorTiers q = Some (colorPrice q)"
  by (simp add: getPrice_def colorTiers_def colorPrice_def)

lemma ceil_quarter: "\<lceil>(of_int p :: rat) / 4\<rceil> = - (- p div 4)"
  using ceiling_divide_eq_div [of p 4, where ?'a = rat] by simp

text \<open>\<open>calculateBrochureBreakdown\<close> never throws, and every field of its result is
  determined as follows.\<close>

lemma calc_struct:
  "\<exists>b. calculateBrochureBreakdown p cp bc a3 = Some b \<and>
       swCount b = fst (countImpressions p cp) * bc \<and>
       colorCount b = snd (countImpressions p cp) * bc \<and>
       effectiveSwCount b = (if a3 then swCount b * 2 else swCount b) \<and>
       effectiveColorCount b = (if a3 then colorCount b * 2 else colorCount b) \<and>
       swUnitPrice b = bwPrice (effectiveSwCount b) * (if a3 then 2 else 1) \<and>
       colorUnitPrice b = colorPrice (effectiveColorCount b) * (if a3 then 2 else 1) \<and>
       (swSurcharge b, colorSurcharge b, swTotal b, colorTotal b) =
          surchargeCosts (swCount b) (colorCount b) (effectiveSwCount b)
            (effectiveColorCount b) (swUnitPrice b) (colorUnitPrice b) a3 \<and>
       bindingCount b = (if p < 5 then 0 else bc) \<and>
       bindingCost b = (if p < 5 then 0 else of_int bc * 0.18) \<and>
       totalCost b = swTotal b + colorTotal b + bindingCost b"
  unfolding calculateBrochureBreakdown_def Let_def getPrice_bwTiers getPrice_colorTiers
    option.case
  by (simp split: prod.split)

subsection \<open>Breakdowns of concrete jobs\<close>

lemmas calc_eval =
  calculateBrochureBreakdown_def countImpressions_def ceil_quarter sheetLoop.simps
  impressions_def countPair_def getPrice_bwTiers getPrice_colorTiers bwPrice_def
  colorPrice_def surchargeCosts_def Let_def

text \<open>Eight pages without colour, one copy, A4 (scenario 1 of the specification).\<close>

lemma scenario1:
  "calculateBrochureBreakdown 8 [] 1 False =
     Some \<lparr>swCount = 4, effectiveSwCount = 4, swUnitPrice = 0.1, swSurcharge = 0.45,
           swTotal = 0.75, colorCount = 0, effectiveColorCount = 0, colorUnitPrice = 0.84,
           colorSurcharge = 0, colorTotal = 0, bindingCount = 1, bindingCost = 0.18,
           totalCost = 0.93\<rparr>"
  by (simp add: calc_eval)


text \<open>Fifteen copies of a four-page brochure without colour, at A4 and at A3.\<close>

lemma a4_fifteen_copies:
  "calculateBrochureBreakdown 4 [] 15 False =
     Some \<lparr>swCount = 30, effectiveSwCount = 30, swUnitPrice = 0.1, swSurcharge = 0.45,
           swTotal = 3.35, colorCount = 0, effectiveColorCount = 0, colorUnitPrice = 0.84,
           colorSurcharge = 0, colorTotal = 0, bindingCount = 0, bindingCost = 0,
           totalCost = 3.35\<rparr>"
  by (simp add: calc_eval)

lemma a3_fifteen_copies:
  "calculateBrochureBreakdown 4 [] 15 True =
     Some \<lparr>swCount = 30, effectiveSwCount = 60, swUnitPrice = 0.18, swSurcharge = 0,
           swTotal = 5.4, colorCount = 0, effectiveColorCount = 0, colorUnitPrice = 1.68,
           colorSurcharge = 0, colorTotal = 0, bindingCount = 0, bindingCost = 0,
           totalCost = 5.4\<rparr>"
  by (simp add: calc_eval)

subsection \<open>The grand total\<close>

text \<open>
  Claim C5. For all inputs, in particular the valid ones (\<open>pagesPerBrochure \<ge> 1\<close>,
  \<open>brochureCount \<ge> 1\<close>), \<open>calculateBrochureBreakdown\<close> returns a breakdown, that
  breakdown is the only result for these inputs, and its grand total is exactly the sum of
  the monochrome subtotal, the colour subtotal and the binding cost.
\<close>

theorem total_is_sum:
  "\<exists>b. calculateBrochureBreakdown p cp bc a3 = Some b \<and>
       (\<forall>b'. calculateBrochureBreakdown p cp bc a3 = Some b' \<longrightarrow> b' = b) \<and>
       totalCost b = swTotal b + colorTotal b + bindingCost b"
proof -
  from calc_struct [of p cp bc a3] obtain b where
    "calculateBrochureBreakdown p cp bc a3 = Some b"
    "totalCost b = swTotal b + colorTotal b + bindingCost b"
    by blast
  then show ?thesis by simp
qed

theorem total_is_sum_witness:
  "\<exists>b. calculateBrochureBreakdown 8 [] 1 False = Some b \<and>
       swTotal b = 0.75 \<and> colorTotal b = 0 \<and> bindingCost b = 0.18 \<and>
       totalCost b = 0.75 + 0 + 0.18"
  using total_is_sum [of 8 "[]" 1 False] by (simp add: scenario1)

subsection \<open>The surcharge policy\<close>



text \<open>
  Claim C6. No breakdown has both \<open>swSurcharge > 0\<close> and \<open>colorSurcharge > 0\<close>.
\<close>

theorem surcharges_exclusive:
  "\<exists>b. calculateBrochureBreakdown p cp bc a3 = Some b \<and>
       \<not> (swSurcharge b > 0 \<and> colorSurcharge b > 0)"
proof -
  from calc_struct [of p cp bc a3] obtain b where
    b: "calculateBrochureBreakdown p cp bc a3 = Some b" and
    sc: "(swSurcharge b, colorSurcharge b, swTotal b, colorTotal b) =
          surchargeCosts (swCount b) (colorCount b) (effectiveSwCount b)
            (effectiveColorCount b) (swUnitPrice b) (colorUnitPrice b) a3"
    by blast
  have "\<not> (swSurcharge b > 0 \<and> colorSurcharge b > 0)"
    using sc unfolding surchargeCosts_def Let_def
    by (simp split: if_splits)
  with b show ?thesis by blast
qed

theorem surcharges_exclusive_witness:
  "\<exists>b. calculateBrochureBreakdown 8 [] 1 False = Some b \<and>
       swSurcharge b = 0.45 \<and> colorSurcharge b = 0 \<and>
       \<not> (swSurcharge b > 0 \<and> colorSurcharge b > 0)"
  using surcharges_exclusive [of 8 "[]" 1 False] by (simp add: scenario1)

subsection \<open>The imposition loop\<close>

lemma totalPages_roundUp4: "\<lceil>(of_int p :: rat) / 4\<rceil> * 4 = roundUp4 p"
  unfolding ceil_quarter roundUp4_def by presburger

lemma roundUp4_props: "4 dvd roundUp4 p \<and> p \<le> roundUp4 p \<and> roundUp4 p < p + 4"
  unfolding roundUp4_def by presburger

lemma impressions_slots:
  "impressions tp j = map (\<lambda>(a, b). [a, b]) (spec_slots tp j)"
  by (simp add: impressions_def spec_slots_def)

lemma sheet_step:
  "fold (countPair p cp) (impressions tp j) st =
     (fst st + spec_bwCount p cp (spec_slots tp j),
      snd st + spec_colorCount p cp (spec_slots tp j))"
  by (cases st)
     (simp add: impressions_def countPair_def spec_slots_def spec_bwCount_def
        spec_colorCount_def spec_counted_def spec_color_def)

lemma spec_layout_rec:
  "j < sheets \<Longrightarrow> spec_layout tp j sheets = spec_slots tp j @ spec_layout tp (j + 1) sheets"
  by (simp add: spec_layout_def upto_rec1 [of j "sheets - 1"])

lemma spec_layout_done: "\<not> j < sheets \<Longrightarrow> spec_layout tp j sheets = []"
  by (simp add: spec_layout_def)

lemma sheetLoop_counts:
  "sheetLoop p cp tp sheets j st =
     (fst st + spec_bwCount p cp (spec_layout tp j sheets),
      snd st + spec_colorCount p cp (spec_layout tp j sheets))"
proof (induction p cp tp sheets j st rule: sheetLoop.induct)
  case (1 p cp tp sheets j st)
  show ?case
  proof (cases "j < sheets")
    case True
    have "sheetLoop p cp tp sheets j st =
            sheetLoop p cp tp sheets (j + 1) (fold (countPair p cp) (impressions tp j) st)"
      using True by (subst sheetLoop.simps) simp
    also have "\<dots> =
      (fst (fold (countPair p cp) (impressions tp j) st) +
         spec_bwCount p cp (spec_layout tp (j + 1) sheets),
       snd (fold (countPair p cp) (impressions tp j) st) +
         spec_colorCount p cp (spec_layout tp (j + 1) sheets))"
      using "1.IH" [OF True] .
    also have "\<dots> =
      (fst st + spec_bwCount p cp (spec_layout tp j sheets),
       snd st + spec_colorCount p cp (spec_layout tp j sheets))"
      by (simp add: sheet_step spec_layout_rec [OF True] spec_bwCount_def spec_colorCount_def)
    finally show ?thesis .
  next
    case False
    then show ?thesis
      by (subst sheetLoop.simps)
         (simp add: spec_layout_done spec_bwCount_def spec_colorCount_def)
  qed
qed

lemma countImpressions_spec:
  "countImpressions p cp =
     (spec_bwCount p cp (spec_layout (roundUp4 p) 0 (roundUp4 p div 4)),
      spec_colorCount p cp (spec_layout (roundUp4 p) 0 (roundUp4 p div 4)))"
  unfolding countImpressions_def Let_def totalPages_roundUp4 sheetLoop_counts by simp

text \<open>
  Claim C1. With \<open>totalPages\<close> the page count rounded up to a multiple of 4 and
  \<open>sheets = totalPages / 4\<close>, every sheet \<open>j\<close> carries exactly the two impressions with
  the slots \<open>(totalPages - 2j, 1 + 2j)\<close> and \<open>(2 + 2j, totalPages - (2j + 1))\<close>; the
  impressions of one brochure are counted over the sheets 0 to \<open>sheets - 1\<close>, an
  impression being counted if and only if one of its slots is at most the unrounded
  \<open>pagesPerBrochure\<close>, as colour if and only if a slot that is at most
  \<open>pagesPerBrochure\<close> is in \<open>colorPages\<close>, as monochrome otherwise; the breakdown holds
  these counts times \<open>brochureCount\<close>. It holds for every page count, so for every
  \<open>pagesPerBrochure \<ge> 1\<close>.
\<close>

theorem imposition_counts:
  "(\<forall>j. impressions (roundUp4 p) j = map (\<lambda>(a, b). [a, b]) (spec_slots (roundUp4 p) j)) \<and>
   countImpressions p cp =
     (spec_bwCount p cp (spec_layout (roundUp4 p) 0 (roundUp4 p div 4)),
      spec_colorCount p cp (spec_layout (roundUp4 p) 0 (roundUp4 p div 4))) \<and>
   (\<exists>b. calculateBrochureBreakdown p cp bc a3 = Some b \<and>
        swCount b = spec_bwCount p cp (spec_layout (roundUp4 p) 0 (roundUp4 p div 4)) * bc \<and>
        colorCount b =
          spec_colorCount p cp (spec_layout (roundUp4 p) 0 (roundUp4 p div 4)) * bc)"
proof -
  from calc_struct [of p cp bc a3] obtain b where
    "calculateBrochureBreakdown p cp bc a3 = Some b"
    "swCount b = fst (countImpressions p cp) * bc"
    "colorCount b = snd (countImpressions p cp) * bc"
    by blast
  then show ?thesis
    by (simp add: impressions_slots countImpressions_spec)
qed

text \<open>Five pages with the pages 4 and 7 marked: the layout is that of 8 pages, all four
  impressions are counted, and only the one with page 4 is colour (page 7 is filler).\<close>

theorem imposition_counts_witness:
  "impressions 8 1 = [[6, 3], [4, 5]] \<and>
   countImpressions 5 [4, 7] = (3, 1) \<and>
   (\<exists>b. calculateBrochureBreakdown 5 [4, 7] 2 False = Some b \<and>
        swCount b = 6 \<and> colorCount b = 2)"
  using imposition_counts [of 5 "[4, 7]" 2 False]
  by (simp add: roundUp4_def spec_layout_def spec_slots_def upto_rec1 spec_bwCount_def
        spec_colorCount_def spec_counted_def spec_color_def)

lemma first_impression_counted:
  assumes "1 \<le> p"
  shows "1 \<le> fst (countImpressions p cp) + snd (countImpressions p cp)"
proof -
  let ?tp = "roundUp4 p"
  have "0 < ?tp div 4"
    using assms roundUp4_props [of p] by presburger
  then have lay: "spec_layout ?tp 0 (?tp div 4) =
      (?tp, 1) # (2, ?tp - 1) # spec_layout ?tp 1 (?tp div 4)"
    by (simp add: spec_layout_rec spec_slots_def)
  have "spec_counted p (?tp, 1)"
    using assms by (simp add: spec_counted_def)
  then have "1 \<le> spec_bwCount p cp (spec_layout ?tp 0 (?tp div 4)) +
                 spec_colorCount p cp (spec_layout ?tp 0 (?tp div 4))"
    unfolding lay by (simp add: spec_bwCount_def spec_colorCount_def)
  then show ?thesis
    by (simp add: countImpressions_spec)
qed

lemma countImpressions_nonneg:
  "0 \<le> fst (countImpressions p cp) \<and> 0 \<le> snd (countImpressions p cp)"
  by (simp add: countImpressions_spec spec_bwCount_def spec_colorCount_def)

text \<open>
  Claim C10. For \<open>pagesPerBrochure \<ge> 1\<close> and \<open>brochureCount \<ge> 1\<close> the monochrome and
  colour impressions of the breakdown sum to at least 1: the first impression of sheet 0
  carries page 1. So the test \<open>totalImpressions > 0\<close> of line 143 never fails on such
  inputs, and the branch that leaves all costs at zero is not reached.
\<close>

theorem some_impression_counted:
  assumes "1 \<le> p" and "1 \<le> bc"
  shows "\<exists>b. calculateBrochureBreakdown p cp bc a3 = Some b \<and>
             1 \<le> swCount b + colorCount b"
proof -
  from calc_struct [of p cp bc a3] obtain b where
    b: "calculateBrochureBreakdown p cp bc a3 = Some b" and
    sw: "swCount b = fst (countImpressions p cp) * bc" and
    co: "colorCount b = snd (countImpressions p cp) * bc"
    by blast
  have "1 * 1 \<le> (fst (countImpressions p cp) + snd (countImpressions p cp)) * bc"
    using first_impression_counted [OF assms(1), of cp] assms(2)
    by (intro mult_mono) simp_all
  then have "1 \<le> swCount b + colorCount b"
    by (simp add: sw co distrib_right)
  with b show ?thesis by blast
qed


theorem some_impression_counted_witness:
  "(1::int) \<le> 1 \<and> (1::int) \<le> 3 \<and>
   (\<exists>b. calculateBrochureBreakdown 1 [] 3 False = Some b \<and>
        swCount b + colorCount b = 3 \<and> 1 \<le> swCount b + colorCount b)"
proof -
  have q: "\<lceil>(1::rat) / 4\<rceil> = 1"
    using ceil_quarter [of 1] by simp
  have c: "calculateBrochureBreakdown 1 [] 3 False =
     Some \<lparr>swCount = 3, effectiveSwCount = 3, swUnitPrice = 0.1, swSurcharge = 0.45,
           swTotal = 0.65, colorCount = 0, effectiveColorCount = 0, colorUnitPrice = 0.84,
           colorSurcharge = 0, colorTotal = 0, bindingCount = 0, bindingCost = 0,
           totalCost = 0.65\<rparr>"
    by (simp add: calc_eval q)
  show ?thesis
    using some_impression_counted [of 1 3 "[]" False] by (simp add: c)
qed

subsection \<open>A3 against A4\<close>

lemma scenario4_a3:
  "calculateBrochureBreakdown 4 [1] 1 True =
     Some \<lparr>swCount = 1, effectiveSwCount = 2, swUnitPrice = 0.2, swSurcharge = 0,
           swTotal = 0.2, colorCount = 1, effectiveColorCount = 2, colorUnitPrice = 1.68,
           colorSurcharge = 2.4, colorTotal = 2.4, bindingCount = 0, bindingCost = 0,
           totalCost = 2.6\<rparr>"
  by (simp add: calc_eval)

text \<open>
  Claim C4 as stated fails: fifteen copies of a four-page brochure without colour are 30
  monochrome impressions. At A4 the unit price is 0.10 and the surcharge 0.45; at A3 the
  effective count 60 reaches the next tier and is no longer below 50, so the unit price
  is 0.18, not 0.20, and the surcharge is 0, not 0.90.
\<close>

theorem a3_doubling_counterexample:
  "map_option swUnitPrice (calculateBrochureBreakdown 4 [] 15 True) = Some 0.18 \<and>
   map_option swUnitPrice (calculateBrochureBreakdown 4 [] 15 False) = Some 0.1 \<and>
   (0.18 :: rat) \<noteq> 2 * 0.1 \<and>
   map_option swSurcharge (calculateBrochureBreakdown 4 [] 15 True) = Some 0 \<and>
   map_option swSurcharge (calculateBrochureBreakdown 4 [] 15 False) = Some 0.45 \<and>
   (0 :: rat) \<noteq> 2 * 0.45"
  by (simp add: a3_fifteen_copies a4_fifteen_copies)

text \<open>
  Claim C4, amended. For the same \<open>pagesPerBrochure\<close>, \<open>colorPages\<close> and
  \<open>brochureCount\<close> the raw counts of the A3 and the A4 breakdown agree and the effective
  counts of the A3 breakdown are exactly double. Category by category:
  the unit price of the A3 breakdown is twice the price the table gives at the doubled
  count (the A4 breakdown has the table's price at the single count), so it is exactly
  double the A4 unit price if and only if the table gives the same price at both counts;
  the surcharge of the A3 breakdown is exactly double the surcharge of the A4 breakdown
  (0.90 for 0.45, 2.40 for 1.20, 0 for 0), except when the effective count of that
  category is below 50 at A4 and not below 50 once doubled, where the A3 surcharge is 0.
\<close>

theorem a3_doubling:
  "\<exists>b3 b4. calculateBrochureBreakdown p cp bc True = Some b3 \<and>
           calculateBrochureBreakdown p cp bc False = Some b4 \<and>
           swCount b3 = swCount b4 \<and> colorCount b3 = colorCount b4 \<and>
           effectiveSwCount b3 = 2 * effectiveSwCount b4 \<and>
           effectiveColorCount b3 = 2 * effectiveColorCount b4 \<and>
           getPrice bwTiers (effectiveSwCount b4) = Some (swUnitPrice b4) \<and>
           getPrice bwTiers (2 * effectiveSwCount b4) = Some (swUnitPrice b3 / 2) \<and>
           getPrice colorTiers (effectiveColorCount b4) = Some (colorUnitPrice b4) \<and>
           getPrice colorTiers (2 * effectiveColorCount b4) = Some (colorUnitPrice b3 / 2) \<and>
           (swUnitPrice b3 = 2 * swUnitPrice b4) =
             (getPrice bwTiers (effectiveSwCount b3) = getPrice bwTiers (effectiveSwCount b4)) \<and>
           (colorUnitPrice b3 = 2 * colorUnitPrice b4) =
             (getPrice colorTiers (effectiveColorCount b3) =
              getPrice colorTiers (effectiveColorCount b4)) \<and>
           (swSurcharge b4 = 0 \<or> swSurcharge b4 = 0.45) \<and>
           (colorSurcharge b4 = 0 \<or> colorSurcharge b4 = 1.2) \<and>
           swSurcharge b3 =
             (if effectiveSwCount b4 < 50 \<and> 50 \<le> effectiveSwCount b3 then 0
              else 2 * swSurcharge b4) \<and>
           colorSurcharge b3 =
             (if effectiveColorCount b4 < 50 \<and> 50 \<le> effectiveColorCount b3 then 0
              else 2 * colorSurcharge b4)"
proof -
  from calc_struct [of p cp bc True] obtain b3 where
    b3: "calculateBrochureBreakdown p cp bc True = Some b3" and
    sw3: "swCount b3 = fst (countImpressions p cp) * bc" and
    co3: "colorCount b3 = snd (countImpressions p cp) * bc" and
    esw3: "effectiveSwCount b3 = swCount b3 * 2" and
    eco3: "effectiveColorCount b3 = colorCount b3 * 2" and
    usw3: "swUnitPrice b3 = bwPrice (effectiveSwCount b3) * 2" and
    uco3: "colorUnitPrice b3 = colorPrice (effectiveColorCount b3) * 2" and
    sc3: "(swSurcharge b3, colorSurcharge b3, swTotal b3, colorTotal b3) =
          surchargeCosts (swCount b3) (colorCount b3) (effectiveSwCount b3)
            (effectiveColorCount b3) (swUnitPrice b3) (colorUnitPrice b3) True"
    by auto
  from calc_struct [of p cp bc False] obtain b4 where
    b4: "calculateBrochureBreakdown p cp bc False = Some b4" and
    sw4: "swCount b4 = fst (countImpressions p cp) * bc" and
    co4: "colorCount b4 = snd (countImpressions p cp) * bc" and
    esw4: "effectiveSwCount b4 = swCount b4" and
    eco4: "effectiveColorCount b4 = colorCount b4" and
    usw4: "swUnitPrice b4 = bwPrice (effectiveSwCount b4)" and
    uco4: "colorUnitPrice b4 = colorPrice (effectiveColorCount b4)" and
    sc4: "(swSurcharge b4, colorSurcharge b4, swTotal b4, colorTotal b4) =
          surchargeCosts (swCount b4) (colorCount b4) (effectiveSwCount b4)
            (effectiveColorCount b4) (swUnitPrice b4) (colorUnitPrice b4) False"
    by auto
  have counts: "swCount b3 = swCount b4" "colorCount b3 = colorCount b4"
    by (simp_all add: sw3 sw4 co3 co4)
  have eff: "effectiveSwCount b3 = 2 * effectiveSwCount b4"
    "effectiveColorCount b3 = 2 * effectiveColorCount b4"
    by (simp_all add: esw3 esw4 eco3 eco4 counts)
  have prices: "getPrice bwTiers (effectiveSwCount b4) = Some (swUnitPrice b4)"
    "getPrice bwTiers (2 * effectiveSwCount b4) = Some (swUnitPrice b3 / 2)"
    "getPrice colorTiers (effectiveColorCount b4) = Some (colorUnitPrice b4)"
    "getPrice colorTiers (2 * effectiveColorCount b4) = Some (colorUnitPrice b3 / 2)"
    by (simp_all add: getPrice_bwTiers getPrice_colorTiers usw3 usw4 uco3 uco4 eff)
  have same_tier:
    "(swUnitPrice b3 = 2 * swUnitPrice b4) =
       (getPrice bwTiers (effectiveSwCount b3) = getPrice bwTiers (effectiveSwCount b4))"
    "(colorUnitPrice b3 = 2 * colorUnitPrice b4) =
       (getPrice colorTiers (effectiveColorCount b3) =
        getPrice colorTiers (effectiveColorCount b4))"
    by (auto simp: getPrice_bwTiers getPrice_colorTiers usw3 usw4 uco3 uco4)
  have s3: "swSurcharge b3 =
      (if 0 < colorCount b4 + swCount b4 \<and> \<not> (0 < colorCount b4 \<and> 2 * colorCount b4 < 50) \<and>
          colorCount b4 = 0 \<and> 2 * swCount b4 < 50 then 0.9 else 0)"
    "colorSurcharge b3 =
      (if 0 < colorCount b4 + swCount b4 \<and> 0 < colorCount b4 \<and> 2 * colorCount b4 < 50
       then 2.4 else 0)"
    using sc3 unfolding surchargeCosts_def Let_def eff esw4 eco4 counts
    by (simp_all split: if_splits)
  have s4: "swSurcharge b4 =
      (if 0 < colorCount b4 + swCount b4 \<and> \<not> (0 < colorCount b4 \<and> colorCount b4 < 50) \<and>
          colorCount b4 = 0 \<and> swCount b4 < 50 then 0.45 else 0)"
    "colorSurcharge b4 =
      (if 0 < colorCount b4 + swCount b4 \<and> 0 < colorCount b4 \<and> colorCount b4 < 50
       then 1.2 else 0)"
    using sc4 unfolding surchargeCosts_def Let_def esw4 eco4
    by (simp_all split: if_splits)
  have flat: "swSurcharge b4 = 0 \<or> swSurcharge b4 = 0.45"
    "colorSurcharge b4 = 0 \<or> colorSurcharge b4 = 1.2"
    unfolding s4 by simp_all
  have sw_sur: "swSurcharge b3 =
      (if effectiveSwCount b4 < 50 \<and> 50 \<le> effectiveSwCount b3 then 0
       else 2 * swSurcharge b4)"
    unfolding s3 s4 eff esw4 eco4 by auto
  have co_sur: "colorSurcharge b3 =
      (if effectiveColorCount b4 < 50 \<and> 50 \<le> effectiveColorCount b3 then 0
       else 2 * colorSurcharge b4)"
    unfolding s3 s4 eff esw4 eco4 by auto
  show ?thesis
    using b3 b4 counts eff prices same_tier flat sw_sur co_sur by blast
qed

text \<open>Thirteen copies of eight pages with page 3 coloured: 39 monochrome and 13 colour
  impressions. The colour surcharge and the colour unit price double at A3 (26 is in the
  tier of 13, below 50); the monochrome unit price does not (78 is in the next tier).\<close>

lemma a4_thirteen_copies:
  "calculateBrochureBreakdown 8 [3] 13 False =
     Some \<lparr>swCount = 39, effectiveSwCount = 39, swUnitPrice = 0.1, swSurcharge = 0,
           swTotal = 3.9, colorCount = 13, effectiveColorCount = 13, colorUnitPrice = 0.84,
           colorSurcharge = 1.2, colorTotal = 11.28, bindingCount = 13, bindingCost = 2.34,
           totalCost = 17.52\<rparr>"
  by (simp add: calc_eval)

lemma a3_thirteen_copies:
  "calculateBrochureBreakdown 8 [3] 13 True =
     Some \<lparr>swCount = 39, effectiveSwCount = 78, swUnitPrice = 0.18, swSurcharge = 0,
           swTotal = 7.02, colorCount = 13, effectiveColorCount = 26, colorUnitPrice = 1.68,
           colorSurcharge = 2.4, colorTotal = 22.56, bindingCount = 13, bindingCost = 2.34,
           totalCost = 31.92\<rparr>"
  by (simp add: calc_eval)

theorem a3_doubling_witness:
  "\<exists>b3 b4. calculateBrochureBreakdown 8 [3] 13 True = Some b3 \<and>
           calculateBrochureBreakdown 8 [3] 13 False = Some b4 \<and>
           effectiveSwCount b3 = 78 \<and> effectiveSwCount b4 = 39 \<and>
           effectiveColorCount b3 = 26 \<and> effectiveColorCount b4 = 13 \<and>
           colorUnitPrice b3 = 1.68 \<and> colorUnitPrice b4 = 0.84 \<and>
           colorSurcharge b3 = 2.4 \<and> colorSurcharge b4 = 1.2 \<and>
           colorSurcharge b3 = 2 * colorSurcharge b4 \<and>
           swUnitPrice b3 = 0.18 \<and> swUnitPrice b4 = 0.1 \<and>
           swSurcharge b3 = 0 \<and> swSurcharge b4 = 0"
  using a3_doubling [of 8 "[3]" 13] by (simp add: a4_thirteen_copies a3_thirteen_copies)

subsection \<open>The price tiers\<close>

text \<open>The monochrome table is non-increasing in the quantity; the colour table is
  non-increasing below 5000.\<close>

lemma bwTiers_antimono:
  "q1 \<le> q2 \<Longrightarrow> \<exists>u1 u2. getPrice bwTiers q1 = Some u1 \<and> getPrice bwTiers q2 = Some u2 \<and> u2 \<le> u1"
  by (simp add: getPrice_bwTiers bwPrice_def)

lemma colorTiers_antimono_below_5000:
  "q1 \<le> q2 \<Longrightarrow> q2 < 5000 \<Longrightarrow>
     \<exists>u1 u2. getPrice colorTiers q1 = Some u1 \<and> getPrice colorTiers q2 = Some u2 \<and> u2 \<le> u1"
  by (simp add: getPrice_colorTiers colorPrice_def)

text \<open>
  Claim C3 at the quantities 1000 and 5000 of the colour table: the unit price rises from
  0.18 to 0.38, where the claim has it non-increasing. The top tier of \<open>colorTiers\<close> is
  the one entry of the two tables that is dearer than the tier below it.
\<close>

theorem colorTiers_price_rises:
  "getPrice colorTiers 1000 = Some 0.18 \<and> getPrice colorTiers 5000 = Some 0.38 \<and>
   (1000 :: int) \<le> 5000 \<and> (0.18 :: rat) < 0.38"
  by (simp add: getPrice_colorTiers colorPrice_def)

section \<open>The page range parser\<close>

subsection \<open>Parses of concrete inputs\<close>

lemmas parse_eval =
  parseColorPages_def allowedChars_def isDigit_def isSpace_def tokens_def trim_def
  processToken_def parseInt_def digitsVal_def digitVal_def setAdd_def rangeLoop.simps
  Let_def

lemma parse_7_19: "parseColorPages ''7-19'' 8 = \<lparr>pages = [], error = Some (PageOutOfBounds 9 8)\<rparr>"
  by (simp add: parse_eval)

text \<open>Scenario 3 of the specification.\<close>

lemma parse_scenario3:
  "parseColorPages ''1, 3-5, 7'' 10 = \<lparr>pages = [1, 3, 4, 5, 7], error = None\<rparr>"
  by (simp add: parse_eval)

lemma parse_1_3_5: "parseColorPages ''1-3-5'' 10 = \<lparr>pages = [1, 2, 3], error = None\<rparr>"
  by (simp add: parse_eval)

lemma parse_5_3_1:
  "parseColorPages ''5-3-1'' 10 = \<lparr>pages = [], error = Some (InvalidRange ''5-3-1'')\<rparr>"
  by (simp add: parse_eval)

lemma parse_0: "parseColorPages ''0'' 10 = \<lparr>pages = [0], error = None\<rparr>"
  by (simp add: parse_eval)

subsection \<open>A range that leaves the brochure\<close>

text \<open>The token loop runs the tokens in order and stops at the first token that returns.\<close>

lemma tokenLoop_append:
  "tokenLoop (pre @ token # post) maxPage resultSet =
     (case tokenLoop pre maxPage resultSet of
        Inl r \<Rightarrow> Inl r
      | Inr s \<Rightarrow>
          (case processToken token maxPage s of
             Inl r \<Rightarrow> Inl r
           | Inr s' \<Rightarrow> tokenLoop post maxPage s'))"
  by (induction pre arbitrary: resultSet) (simp_all split: sum.splits)

text \<open>A range whose end exceeds the bound returns at the first value above the bound.\<close>

lemma rangeLoop_exceeds:
  "i \<le> endv \<Longrightarrow> maxPage < endv \<Longrightarrow>
     rangeLoop i endv maxPage resultSet =
       Inl \<lparr>pages = [], error = Some (PageOutOfBounds (max i (maxPage + 1)) maxPage)\<rparr>"
proof (induction i endv maxPage resultSet rule: rangeLoop.induct)
  case (1 i endv maxPage resultSet)
  show ?case
  proof (cases "i > maxPage")
    case True
    then have "max i (maxPage + 1) = i" by simp
    with True "1.prems" show ?thesis
      by (subst rangeLoop.simps) simp
  next
    case False
    with "1.prems" have "i + 1 \<le> endv" and m: "max i (maxPage + 1) = max (i + 1) (maxPage + 1)"
      by simp_all
    with "1.IH" [of] False "1.prems" have
      "rangeLoop (i + 1) endv maxPage (setAdd resultSet i) =
         Inl \<lparr>pages = [], error = Some (PageOutOfBounds (max (i + 1) (maxPage + 1)) maxPage)\<rparr>"
      by simp
    with False "1.prems" m show ?thesis
      by (subst rangeLoop.simps) simp
  qed
qed

text \<open>
  Claim C7. Let the token loop reach a range token (the tokens before it are processed
  without a return) whose ends parse to \<open>start \<le> end\<close> with \<open>end\<close> above \<open>maxPage\<close>.
  Then the parse returns at once with the error PageOutOfBounds citing the first value of
  \<open>[start, end]\<close> that exceeds \<open>maxPage\<close> (that is \<open>max start (maxPage + 1)\<close>: it lies
  in the range, exceeds the bound, and every value of the range before it does not) and
  the bound, and the pages returned with the error are empty. The witness is the parse
  of \<open>7-19\<close> for 8 pages, which cites the value 9 and the bound 8.
\<close>

theorem range_out_of_bounds:
  assumes "allowedChars input"
    and "tokens input = pre @ token # post"
    and "tokenLoop pre maxPage [] = Inr resultSet"
    and "CHR ''-'' \<in> set token"
    and "map trim (split_on CHR ''-'' token) = startStr # endStr # others"
    and "parseInt startStr = Some start"
    and "parseInt endStr = Some endv"
    and "start \<le> endv"
    and "maxPage < endv"
  shows "parseColorPages input maxPage =
           \<lparr>pages = [], error = Some (PageOutOfBounds (max start (maxPage + 1)) maxPage)\<rparr> \<and>
         start \<le> max start (maxPage + 1) \<and> max start (maxPage + 1) \<le> endv \<and>
         maxPage < max start (maxPage + 1) \<and>
         (\<forall>i. start \<le> i \<and> i < max start (maxPage + 1) \<longrightarrow> i \<le> maxPage)"
proof -
  have "processToken token maxPage resultSet = rangeLoop start endv maxPage resultSet"
    using assms(4-8) by (simp add: processToken_def)
  then have "processToken token maxPage resultSet =
      Inl \<lparr>pages = [], error = Some (PageOutOfBounds (max start (maxPage + 1)) maxPage)\<rparr>"
    using rangeLoop_exceeds [OF assms(8,9)] by simp
  then have "tokenLoop (tokens input) maxPage [] =
      Inl \<lparr>pages = [], error = Some (PageOutOfBounds (max start (maxPage + 1)) maxPage)\<rparr>"
    unfolding assms(2) tokenLoop_append using assms(3) by simp
  then have "parseColorPages input maxPage =
      \<lparr>pages = [], error = Some (PageOutOfBounds (max start (maxPage + 1)) maxPage)\<rparr>"
    using assms(1) by (simp add: parseColorPages_def)
  moreover have "start \<le> max start (maxPage + 1) \<and> max start (maxPage + 1) \<le> endv \<and>
         maxPage < max start (maxPage + 1) \<and>
         (\<forall>i. start \<le> i \<and> i < max start (maxPage + 1) \<longrightarrow> i \<le> maxPage)"
    using assms(8,9) by auto
  ultimately show ?thesis by blast
qed

theorem range_out_of_bounds_witness:
  "allowedChars ''7-19'' \<and> tokens ''7-19'' = [] @ ''7-19'' # [] \<and>
   tokenLoop [] 8 [] = Inr [] \<and> CHR ''-'' \<in> set ''7-19'' \<and>
   map trim (split_on CHR ''-'' ''7-19'') = ''7'' # ''19'' # [] \<and>
   parseInt ''7'' = Some 7 \<and> parseInt ''19'' = Some 19 \<and> (7 :: int) \<le> 19 \<and> (8 :: int) < 19 \<and>
   parseColorPages ''7-19'' 8 = \<lparr>pages = [], error = Some (PageOutOfBounds 9 8)\<rparr>"
proof -
  have h: "allowedChars ''7-19''" "tokens ''7-19'' = [] @ ''7-19'' # []"
    "tokenLoop [] 8 [] = Inr []" "CHR ''-'' \<in> set ''7-19''"
    "map trim (split_on CHR ''-'' ''7-19'') = ''7'' # ''19'' # []"
    "parseInt ''7'' = Some 7" "parseInt ''19'' = Some 19" "(7 :: int) \<le> 19" "(8 :: int) < 19"
    by (simp_all add: parse_eval)
  from range_out_of_bounds [OF h] have
    "parseColorPages ''7-19'' 8 = \<lparr>pages = [], error = Some (PageOutOfBounds 9 8)\<rparr>"
    by simp
  with h show ?thesis by blast
qed

subsection \<open>The pages of a parse\<close>

lemma set_trim: "set (trim s) \<subseteq> set s"
proof -
  have "set (trim s) = set (dropWhile isSpace (rev (dropWhile isSpace s)))"
    by (simp add: trim_def)
  also have "\<dots> \<subseteq> set (rev (dropWhile isSpace s))"
    by (auto dest: set_dropWhileD)
  also have "\<dots> \<subseteq> set s"
    by (auto dest: set_dropWhileD)
  finally show ?thesis .
qed

lemma split_on_nonempty: "split_on sep s \<noteq> []"
  by (induction s) (simp_all split: list.splits)

lemma split_on_no_sep: "p \<in> set (split_on sep s) \<Longrightarrow> sep \<notin> set p"
proof (induction s arbitrary: p)
  case Nil
  then show ?case by simp
next
  case (Cons c cs)
  show ?case
  proof (cases "c = sep")
    case True
    with Cons show ?thesis by auto
  next
    case False
    obtain q qs where q: "split_on sep cs = q # qs"
      using split_on_nonempty [of sep cs] by (cases "split_on sep cs") auto
    with Cons.prems False have "p = c # q \<or> p \<in> set qs" by simp
    with Cons.IH q False show ?thesis by auto
  qed
qed

lemma digitVal_nonneg: "isDigit c \<Longrightarrow> 0 \<le> digitVal c"
  by (auto simp: isDigit_def digitVal_def)

lemma foldl_digits_nonneg:
  "0 \<le> a \<Longrightarrow> \<forall>c \<in> set ds. isDigit c \<Longrightarrow> 0 \<le> foldl (\<lambda>a c. 10 * a + digitVal c) a ds"
proof (induction ds arbitrary: a)
  case Nil
  then show ?case by simp
next
  case (Cons d ds)
  from Cons.prems have "0 \<le> 10 * a + digitVal d"
    using digitVal_nonneg [of d] by simp
  with Cons show ?case by simp
qed

lemma digitsVal_nonneg: "0 \<le> digitsVal (takeWhile isDigit u)"
  unfolding digitsVal_def
  by (rule foldl_digits_nonneg) (auto dest: set_takeWhileD)

text \<open>Without a minus sign in the string, \<open>parseInt\<close> gives no negative number.\<close>

lemma parseInt_nonneg:
  assumes "parseInt s = Some n" and "CHR ''-'' \<notin> set s"
  shows "0 \<le> n"
proof -
  define t where "t = dropWhile isSpace s"
  have "CHR ''-'' \<notin> set t"
    using assms(2) unfolding t_def by (auto dest: set_dropWhileD)
  then have "(case t of c # _ \<Rightarrow> c = CHR ''-'' | [] \<Rightarrow> False) = False"
    by (cases t) auto
  with assms(1) show ?thesis
    unfolding parseInt_def Let_def t_def [symmetric]
    by (auto simp: digitsVal_nonneg split: if_splits)
qed

text \<open>The set under construction has no duplicates and holds values from 0 to \<open>maxPage\<close>;
  each step of the parse keeps it so.\<close>

lemma setAdd_inv:
  assumes "distinct resultSet" and "\<forall>x \<in> set resultSet. 0 \<le> x \<and> x \<le> maxPage"
    and "0 \<le> i" and "i \<le> maxPage"
  shows "distinct (setAdd resultSet i) \<and> (\<forall>x \<in> set (setAdd resultSet i). 0 \<le> x \<and> x \<le> maxPage)"
  using assms by (auto simp: setAdd_def)

lemma rangeLoop_inv:
  "rangeLoop i endv maxPage resultSet = Inr s \<Longrightarrow> 0 \<le> i \<Longrightarrow> distinct resultSet \<Longrightarrow>
   \<forall>x \<in> set resultSet. 0 \<le> x \<and> x \<le> maxPage \<Longrightarrow>
   distinct s \<and> (\<forall>x \<in> set s. 0 \<le> x \<and> x \<le> maxPage)"
proof (induction i endv maxPage resultSet rule: rangeLoop.induct)
  case (1 i endv maxPage resultSet)
  show ?case
  proof (cases "i \<le> endv")
    case True
    show ?thesis
    proof (cases "i > maxPage")
      case over: True
      with True "1.prems"(1) show ?thesis
        by (subst (asm) rangeLoop.simps) simp
    next
      case False
      with True "1.prems"(1) have
        next_call: "rangeLoop (i + 1) endv maxPage (setAdd resultSet i) = Inr s"
        by (subst (asm) rangeLoop.simps) simp
      from False have "i \<le> maxPage" by simp
      from setAdd_inv [OF "1.prems"(3,4,2) this] have
        d: "distinct (setAdd resultSet i)" and
        b: "\<forall>x \<in> set (setAdd resultSet i). 0 \<le> x \<and> x \<le> maxPage"
        by blast+
      from "1.prems"(2) have "0 \<le> i + 1" by simp
      from "1.IH" [OF True False next_call this d b] show ?thesis .
    qed
  next
    case False
    with "1.prems" show ?thesis
      by (subst (asm) rangeLoop.simps) simp
  qed
qed

lemma rangeLoop_returns:
  "rangeLoop i endv maxPage resultSet = Inl r \<Longrightarrow> pages r = [] \<and> error r \<noteq> None"
proof (induction i endv maxPage resultSet rule: rangeLoop.induct)
  case (1 i endv maxPage resultSet)
  from "1.prems" have
    "(if i \<le> endv then
        (if i > maxPage then Inl \<lparr>pages = [], error = Some (PageOutOfBounds i maxPage)\<rparr>
         else rangeLoop (i + 1) endv maxPage (setAdd resultSet i))
      else Inr resultSet) = Inl r"
    by (subst (asm) rangeLoop.simps) simp
  with "1.IH" show ?case
    by (auto split: if_splits)
qed

lemma split_on_two:
  "sep \<in> set s \<Longrightarrow> \<exists>a b rest. split_on sep s = a # b # rest"
proof (induction s)
  case Nil
  then show ?case by simp
next
  case (Cons c cs)
  obtain q qs where q: "split_on sep cs = q # qs"
    using split_on_nonempty [of sep cs] by (cases "split_on sep cs") auto
  show ?case
  proof (cases "c = sep")
    case True
    with q show ?thesis by simp
  next
    case False
    with Cons.prems have "sep \<in> set cs" by simp
    from Cons.IH [OF this] False show ?thesis by auto
  qed
qed

text \<open>What a range token does, by the first two of its trimmed parts.\<close>

lemma processToken_range:
  assumes "CHR ''-'' \<in> set token"
    and "map trim (split_on CHR ''-'' token) = startStr # endStr # others"
  shows "processToken token maxPage resultSet =
     (case parseInt startStr of
        None \<Rightarrow> Inl \<lparr>pages = [], error = Some (InvalidRange token)\<rparr>
      | Some s \<Rightarrow>
          (case parseInt endStr of
             None \<Rightarrow> Inl \<lparr>pages = [], error = Some (InvalidRange token)\<rparr>
           | Some e \<Rightarrow>
               if s > e then Inl \<lparr>pages = [], error = Some (InvalidRange token)\<rparr>
               else rangeLoop s e maxPage resultSet))"
  using assms by (simp add: processToken_def split: option.split)

lemma range_parts:
  assumes "CHR ''-'' \<in> set token"
  shows "\<exists>startStr endStr others.
           map trim (split_on CHR ''-'' token) = startStr # endStr # others \<and>
           CHR ''-'' \<notin> set startStr \<and> CHR ''-'' \<notin> set endStr"
proof -
  from split_on_two [OF assms] obtain a b rest where
    sp: "split_on CHR ''-'' token = a # b # rest" by blast
  then have "a \<in> set (split_on CHR ''-'' token)" "b \<in> set (split_on CHR ''-'' token)"
    by simp_all
  then have "CHR ''-'' \<notin> set a" "CHR ''-'' \<notin> set b"
    by (simp_all add: split_on_no_sep)
  then have "CHR ''-'' \<notin> set (trim a)" "CHR ''-'' \<notin> set (trim b)"
    using set_trim [of a] set_trim [of b] by blast+
  with sp show ?thesis by simp
qed

lemma processToken_inv:
  assumes "processToken token maxPage resultSet = Inr s"
    and "distinct resultSet" and "\<forall>x \<in> set resultSet. 0 \<le> x \<and> x \<le> maxPage"
  shows "distinct s \<and> (\<forall>x \<in> set s. 0 \<le> x \<and> x \<le> maxPage)"
proof (cases "CHR ''-'' \<in> set token")
  case True
  from range_parts [OF True] obtain startStr endStr others where
    parts: "map trim (split_on CHR ''-'' token) = startStr # endStr # others" and
    nosign: "CHR ''-'' \<notin> set startStr"
    by auto
  note eq = processToken_range [OF True parts, of maxPage resultSet]
  show ?thesis
  proof (cases "parseInt startStr")
    case None
    with eq assms(1) show ?thesis by simp
  next
    case st: (Some start)
    show ?thesis
    proof (cases "parseInt endStr")
      case None
      with eq st assms(1) show ?thesis by simp
    next
      case (Some endv)
      with eq st assms(1) have loop: "rangeLoop start endv maxPage resultSet = Inr s"
        by (simp split: if_splits)
      from parseInt_nonneg [OF st nosign] have "0 \<le> start" .
      from rangeLoop_inv [OF loop this assms(2,3)] show ?thesis .
    qed
  qed
next
  case False
  show ?thesis
  proof (cases "parseInt token")
    case None
    with assms False show ?thesis by (simp add: processToken_def)
  next
    case (Some num)
    from parseInt_nonneg [OF Some False] have nn: "0 \<le> num" .
    from assms(1) False Some have le: "num \<le> maxPage" and s: "s = setAdd resultSet num"
      by (simp_all add: processToken_def split: if_splits)
    from setAdd_inv [OF assms(2,3) nn le] s show ?thesis by simp
  qed
qed

lemma processToken_returns:
  assumes "processToken token maxPage resultSet = Inl r"
  shows "pages r = [] \<and> error r \<noteq> None"
proof (cases "CHR ''-'' \<in> set token")
  case True
  from range_parts [OF True] obtain startStr endStr others where
    parts: "map trim (split_on CHR ''-'' token) = startStr # endStr # others"
    by auto
  note eq = processToken_range [OF True parts, of maxPage resultSet]
  show ?thesis
  proof (cases "parseInt startStr")
    case None
    with eq assms show ?thesis by auto
  next
    case st: (Some start)
    show ?thesis
    proof (cases "parseInt endStr")
      case None
      with eq st assms show ?thesis by auto
    next
      case (Some endv)
      show ?thesis
      proof (cases "start > endv")
        case True
        with eq st Some assms show ?thesis by auto
      next
        case False
        with eq st Some assms have "rangeLoop start endv maxPage resultSet = Inl r"
          by simp
        then show ?thesis by (rule rangeLoop_returns)
      qed
    qed
  qed
next
  case False
  with assms show ?thesis
    by (auto simp: processToken_def split: option.splits if_splits)
qed

lemma tokenLoop_inv:
  "tokenLoop ts maxPage resultSet = Inr s \<Longrightarrow> distinct resultSet \<Longrightarrow>
   \<forall>x \<in> set resultSet. 0 \<le> x \<and> x \<le> maxPage \<Longrightarrow>
   distinct s \<and> (\<forall>x \<in> set s. 0 \<le> x \<and> x \<le> maxPage)"
proof (induction ts arbitrary: resultSet)
  case Nil
  then show ?case by simp
next
  case (Cons t ts)
  from Cons.prems(1) obtain s' where
    tok: "processToken t maxPage resultSet = Inr s'" and
    rest: "tokenLoop ts maxPage s' = Inr s"
    by (auto split: sum.splits)
  from processToken_inv [OF tok Cons.prems(2,3)] Cons.IH [OF rest] show ?case by blast
qed

lemma tokenLoop_returns:
  "tokenLoop ts maxPage resultSet = Inl r \<Longrightarrow> pages r = [] \<and> error r \<noteq> None"
  by (induction ts arbitrary: resultSet)
     (auto split: sum.splits dest: processToken_returns)

text \<open>An error never comes with pages.\<close>

lemma parse_error_no_pages:
  "error (parseColorPages input maxPage) \<noteq> None \<Longrightarrow> pages (parseColorPages input maxPage) = []"
  by (auto simp: parseColorPages_def split: if_splits sum.splits dest: tokenLoop_returns)

text \<open>
  Claim C8 as stated fails: the parse of \<open>0\<close> succeeds and returns the page 0, which is
  not a positive integer. The parser has no lower bound on a page number.
\<close>

theorem parse_pages_positive_counterexample:
  "error (parseColorPages ''0'' 10) = None \<and> pages (parseColorPages ''0'' 10) = [0] \<and>
   \<not> (1 :: int) \<le> 0"
  by (simp add: parse_0)

text \<open>
  Claim C8, amended. For every input and every \<open>maxPage\<close>, so whenever the parse
  succeeds, every element of the returned pages is an integer from 0 to \<open>maxPage\<close> (0
  included), and the pages have no duplicates.
\<close>

theorem parse_pages_bounded:
  "distinct (pages (parseColorPages input maxPage)) \<and>
   (\<forall>x \<in> set (pages (parseColorPages input maxPage)). 0 \<le> x \<and> x \<le> maxPage)"
proof (cases "allowedChars input")
  case False
  then show ?thesis by (simp add: parseColorPages_def)
next
  case True
  show ?thesis
  proof (cases "tokenLoop (tokens input) maxPage []")
    case (Inl r)
    with True tokenLoop_returns [OF Inl] show ?thesis
      by (simp add: parseColorPages_def)
  next
    case (Inr s)
    from tokenLoop_inv [OF Inr] have
      "distinct s \<and> (\<forall>x \<in> set s. 0 \<le> x \<and> x \<le> maxPage)" by simp
    with True Inr show ?thesis
      by (simp add: parseColorPages_def)
  qed
qed

theorem parse_pages_bounded_witness:
  "error (parseColorPages ''1, 3-5, 7'' 10) = None \<and>
   pages (parseColorPages ''1, 3-5, 7'' 10) = [1, 3, 4, 5, 7] \<and>
   distinct (pages (parseColorPages ''1, 3-5, 7'' 10)) \<and>
   list_all (\<lambda>x. 0 \<le> x \<and> x \<le> 10) (pages (parseColorPages ''1, 3-5, 7'' 10))"
  using parse_pages_bounded [of "''1, 3-5, 7''" 10]
  by (simp add: parse_scenario3)

subsection \<open>Tokens with more than one hyphen\<close>

lemma split_on_append:
  "sep \<notin> set a \<Longrightarrow> split_on sep (a @ sep # rest) = a # split_on sep rest"
  by (induction a) auto

lemma split_on_single: "sep \<notin> set a \<Longrightarrow> split_on sep a = [a]"
  by (induction a) auto

lemma rangeLoop_error:
  "rangeLoop i endv maxPage resultSet = Inl r \<Longrightarrow> \<exists>v. error r = Some (PageOutOfBounds v maxPage)"
proof (induction i endv maxPage resultSet rule: rangeLoop.induct)
  case (1 i endv maxPage resultSet)
  show ?case
  proof (cases "i \<le> endv")
    case True
    show ?thesis
    proof (cases "i > maxPage")
      case over: True
      with True "1.prems" show ?thesis
        by (subst (asm) rangeLoop.simps) auto
    next
      case False
      with True "1.prems" have "rangeLoop (i + 1) endv maxPage (setAdd resultSet i) = Inl r"
        by (subst (asm) rangeLoop.simps) simp
      from "1.IH" [OF True False this] show ?thesis .
    qed
  next
    case False
    with "1.prems" show ?thesis
      by (subst (asm) rangeLoop.simps) simp
  qed
qed

text \<open>
  Claim C9 as stated fails: \<open>5-3-1\<close> is a token with two hyphens, and its parse reports
  an invalid range, since its first part is above its second.
\<close>

theorem extra_parts_counterexample:
  "length (filter (\<lambda>c. c = CHR ''-'') ''5-3-1'') = 2 \<and>
   parseColorPages ''5-3-1'' 10 = \<lparr>pages = [], error = Some (InvalidRange ''5-3-1'')\<rparr>"
  by (simp add: parse_5_3_1)

text \<open>
  Claim C9, amended. A token with two or more hyphens, \<open>a-b-c\<close> with no hyphen in \<open>a\<close>
  and in \<open>b\<close>, is read as the range from its first part \<open>a\<close> to its second part \<open>b\<close>,
  as the token \<open>a-b\<close> is; everything after the second hyphen is ignored and is no error
  by itself. An invalid range is reported (citing the whole token) exactly when \<open>a\<close> or
  \<open>b\<close> is not a number or the start is above the end. The witness is the token
  \<open>1-3-5\<close>, whose parse for 10 pages succeeds with the pages 1, 2, 3.
\<close>

theorem extra_parts_ignored:
  assumes "CHR ''-'' \<notin> set a" and "CHR ''-'' \<notin> set b"
  shows "processToken (a @ ''-'' @ b @ ''-'' @ c) maxPage resultSet =
           rangeOf (a @ ''-'' @ b @ ''-'' @ c) a b maxPage resultSet \<and>
         processToken (a @ ''-'' @ b) maxPage resultSet =
           rangeOf (a @ ''-'' @ b) a b maxPage resultSet \<and>
         ((\<exists>r t. processToken (a @ ''-'' @ b @ ''-'' @ c) maxPage resultSet = Inl r \<and>
                 error r = Some (InvalidRange t)) \<longleftrightarrow>
          (case parseInt (trim a) of
             None \<Rightarrow> True
           | Some s \<Rightarrow> (case parseInt (trim b) of None \<Rightarrow> True | Some e \<Rightarrow> s > e)))"
proof -
  let ?long = "a @ ''-'' @ b @ ''-'' @ c"
  let ?short = "a @ ''-'' @ b"
  have "split_on CHR ''-'' ?long = a # b # split_on CHR ''-'' c"
    using assms by (simp add: split_on_append)
  then have parts_long:
    "map trim (split_on CHR ''-'' ?long) = trim a # trim b # map trim (split_on CHR ''-'' c)"
    by simp
  have "split_on CHR ''-'' ?short = [a, b]"
    using assms by (simp add: split_on_append split_on_single)
  then have parts_short: "map trim (split_on CHR ''-'' ?short) = trim a # trim b # []"
    by simp
  have long: "processToken ?long maxPage resultSet = rangeOf ?long a b maxPage resultSet"
    unfolding rangeOf_def
    by (rule processToken_range [OF _ parts_long]) simp
  have short: "processToken ?short maxPage resultSet = rangeOf ?short a b maxPage resultSet"
    unfolding rangeOf_def
    by (rule processToken_range [OF _ parts_short]) simp
  have "(\<exists>r t. rangeOf ?long a b maxPage resultSet = Inl r \<and> error r = Some (InvalidRange t)) \<longleftrightarrow>
          (case parseInt (trim a) of
             None \<Rightarrow> True
           | Some s \<Rightarrow> (case parseInt (trim b) of None \<Rightarrow> True | Some e \<Rightarrow> s > e))"
  proof (cases "parseInt (trim a)")
    case None
    then show ?thesis by (simp add: rangeOf_def)
  next
    case st: (Some s)
    show ?thesis
    proof (cases "parseInt (trim b)")
      case None
      with st show ?thesis by (simp add: rangeOf_def)
    next
      case (Some e)
      show ?thesis
      proof (cases "s > e")
        case True
        with st Some show ?thesis by (simp add: rangeOf_def)
      next
        case False
        have "\<not> (\<exists>r t. rangeLoop s e maxPage resultSet = Inl r \<and> error r = Some (InvalidRange t))"
          using rangeLoop_error [of s e maxPage resultSet] by auto
        with False st Some show ?thesis by (simp add: rangeOf_def)
      qed
    qed
  qed
  with long short show ?thesis by simp
qed

theorem extra_parts_ignored_witness:
  "CHR ''-'' \<notin> set ''1'' \<and> CHR ''-'' \<notin> set ''3'' \<and>
   processToken ''1-3-5'' 10 [] = Inr [1, 2, 3] \<and>
   processToken ''1-3'' 10 [] = Inr [1, 2, 3] \<and>
   parseColorPages ''1-3-5'' 10 = \<lparr>pages = [1, 2, 3], error = None\<rparr>"
proof -
  have h: "CHR ''-'' \<notin> set ''1''" "CHR ''-'' \<notin> set ''3''"
    by simp_all
  have "rangeOf ''1-3-5'' ''1'' ''3'' 10 [] = Inr [1, 2, 3]"
    "rangeOf ''1-3'' ''1'' ''3'' 10 [] = Inr [1, 2, 3]"
    by (simp_all add: rangeOf_def parse_eval)
  with extra_parts_ignored [OF h, of "''5''" 10 "[]"] h parse_1_3_5
  show ?thesis by simp
qed

end
